theory Spec2Isabelle
  imports Main "HOL-Library.Sublist"
begin

section \<open>The loader: copying objects from S3 to Azure blob storage\<close>

text \<open>
  A shallow embedding of \<^verbatim>\<open>main.go\<close>. Go strings are byte sequences and are modelled as
  \<^typ>\<open>string\<close> (lists of 8-bit characters). Go's \<^verbatim>\<open>int\<close> is 64 bits wide. The
  counters of \<^verbatim>\<open>main\<close> are modelled as \<^typ>\<open>int\<close>: they change by one for a value received
  on a channel and stay far below \<open>2^63\<close>. The product \<^verbatim>\<open>2*(*concurrency)\<close> of line 192 is
  wrapped to 64 bits.
  The functions of the Go standard library and of the SDKs that the program calls are not
  part of the repository; \<^verbatim>\<open>strings.ReplaceAll\<close> and \<^verbatim>\<open>url.QueryUnescape\<close> are
  modelled after the standard library, the storage clients are parameters.
\<close>

subsection \<open>Library functions on strings\<close>

text \<open>
  \<^verbatim>\<open>strings.ReplaceAll(s, old, new)\<close> for a non-empty \<open>old\<close>: the non-overlapping occurrences
  of \<open>old\<close> are replaced from left to right. (For an empty \<open>old\<close> Go inserts \<open>new\<close> around
  every UTF-8 sequence; the program never does that, and the model leaves \<open>s\<close> as it is.)
\<close>

function ReplaceAll :: "string \<Rightarrow> string \<Rightarrow> string \<Rightarrow> string" where
  "ReplaceAll [] old new = []"
| "ReplaceAll (c # s) old new =
     (if old \<noteq> [] \<and> prefix old (c # s)
      then new @ ReplaceAll (drop (length old) (c # s)) old new
      else c # ReplaceAll s old new)"
  by pat_completeness auto
termination
  by (relation "measure (\<lambda>(s, old, new). length s)") (auto simp: neq_Nil_conv)

text \<open>
  \<^verbatim>\<open>ishex\<close> and \<^verbatim>\<open>unhex\<close> of \<^verbatim>\<open>net/url\<close>, on the byte value of a character.
\<close>

definition ishex :: "char \<Rightarrow> bool" where
  "ishex c =
     (let n = (of_char c :: nat) in
      (48 \<le> n \<and> n \<le> 57) \<or> (97 \<le> n \<and> n \<le> 102) \<or> (65 \<le> n \<and> n \<le> 70))"

definition unhex :: "char \<Rightarrow> nat" where
  "unhex c =
     (let n = (of_char c :: nat) in
      if 48 \<le> n \<and> n \<le> 57 then n - 48
      else if 97 \<le> n \<and> n \<le> 102 then n - 97 + 10
      else if 65 \<le> n \<and> n \<le> 70 then n - 65 + 10
      else 0)"

text \<open>
  The first loop of \<^verbatim>\<open>url.unescape\<close> in mode \<^verbatim>\<open>encodeQueryComponent\<close>: it counts the
  \<^verbatim>\<open>%\<close> signs in \<open>n\<close>, notes a \<^verbatim>\<open>+\<close> in \<open>hasPlus\<close>, and stops with the offending text
  (at most three bytes from the \<^verbatim>\<open>%\<close> on) when a \<^verbatim>\<open>%\<close> is not followed by two
  hexadecimal digits.
\<close>

fun unescape_scan :: "string \<Rightarrow> nat \<Rightarrow> bool \<Rightarrow> string + (nat \<times> bool)" where
  "unescape_scan [] n hasPlus = Inr (n, hasPlus)"
| "unescape_scan (c # s) n hasPlus =
     (if c = CHR ''%'' then
        (case s of
           a # b # rest \<Rightarrow>
             if ishex a \<and> ishex b then unescape_scan rest (n + 1) hasPlus
             else Inl (take 3 (c # s))
         | _ \<Rightarrow> Inl (take 3 (c # s)))
      else if c = CHR ''+'' then unescape_scan s n True
      else unescape_scan s n hasPlus)"

text \<open>
  The second loop of \<^verbatim>\<open>url.unescape\<close>: it writes the decoded bytes. It runs only on a
  string the first loop has accepted, where every \<^verbatim>\<open>%\<close> has its two digits; the model
  copies a \<^verbatim>\<open>%\<close> without them.
\<close>

fun unescape_build :: "string \<Rightarrow> string" where
  "unescape_build [] = []"
| "unescape_build (c # s) =
     (if c = CHR ''%'' then
        (case s of
           a # b # rest \<Rightarrow> char_of (unhex a * 16 + unhex b) # unescape_build rest
         | _ \<Rightarrow> c # unescape_build s)
      else if c = CHR ''+'' then CHR '' '' # unescape_build s
      else c # unescape_build s)"

text \<open>
  \<^verbatim>\<open>url.QueryUnescape\<close>: \<open>Inl bad\<close> is the \<^verbatim>\<open>EscapeError(bad)\<close> it returns, \<open>Inr t\<close> the
  decoded string.
\<close>

definition QueryUnescape :: "string \<Rightarrow> string + string" where
  "QueryUnescape s =
     (case unescape_scan s 0 False of
        Inl bad \<Rightarrow> Inl bad
      | Inr (n, hasPlus) \<Rightarrow>
          if n = 0 \<and> \<not> hasPlus then Inr s else Inr (unescape_build s))"

subsection \<open>The container name\<close>

text \<open>
  Line 97 of \<^verbatim>\<open>CopyFile\<close>: \<^verbatim>\<open>azureContainer := strings.ReplaceAll(wi.Bucket, ".", "-")\<close>.
\<close>

definition azureContainer :: "string \<Rightarrow> string" where
  "azureContainer bucket = ReplaceAll bucket ''.'' ''-''"

subsection \<open>Error values\<close>

text \<open>
  A Go \<^verbatim>\<open>error\<close> is an interface value; \<^verbatim>\<open>res == errCloseSentinel\<close> compares the
  identity of the object behind it. Each way the program or a collaborator makes an error
  object is a constructor, so that two values are equal exactly when they are the same
  object: \<open>errCloseSentinel\<close> is the one object of line 60, \<open>Propagate\<close> and \<open>NewError\<close> are
  the objects made by the \<^verbatim>\<open>stacktrace\<close> package, \<open>Errorf\<close> the one made by
  \<^verbatim>\<open>fmt.Errorf\<close>, \<open>EscapeError\<close> the one of \<^verbatim>\<open>net/url\<close>, \<open>ResponseError\<close> an
  \<^verbatim>\<open>*azcore.ResponseError\<close> with its error code, and \<open>OtherError\<close> any other error of a
  collaborator. A value of type \<^verbatim>\<open>error\<close> is an \<open>error option\<close>, \<open>None\<close> being \<^verbatim>\<open>nil\<close>.
\<close>

datatype error =
    errCloseSentinel
  | EscapeError string
  | ResponseError string
  | OtherError string
  | Propagate error string
  | NewError string
  | Errorf string

text \<open>
  \<^verbatim>\<open>stacktrace.RootCause\<close>: it follows the causes of the \<^verbatim>\<open>stacktrace\<close> objects; one
  without a cause gives a new plain error with its message.
\<close>

fun RootCause :: "error \<Rightarrow> error" where
  "RootCause (Propagate cause msg) = RootCause cause"
| "RootCause (NewError msg) = OtherError msg"
| "RootCause e = e"

subsection \<open>The azure-tier option\<close>

text \<open>
  \<^verbatim>\<open>AzureTier\<close> (lines 24 to 53). The pointer \<^verbatim>\<open>val\<close> is an option, \<open>None\<close> being
  \<^verbatim>\<open>nil\<close>. The list \<^verbatim>\<open>blob.PossibleAccessTierValues()\<close> of the Azure SDK is the
  parameter \<open>tiers\<close>.
\<close>

record AzureTier =
  val :: "string option"

definition AzureTier_String :: "AzureTier \<Rightarrow> string" where
  "AzureTier_String s = (case val s of None \<Rightarrow> [] | Some t \<Rightarrow> t)"

text \<open>The loop of lines 39 to 44: the first tier equal to \<open>v\<close> is stored, then \<^verbatim>\<open>break\<close>.\<close>

fun Set_loop :: "string list \<Rightarrow> string \<Rightarrow> AzureTier \<Rightarrow> AzureTier" where
  "Set_loop [] v s = s"
| "Set_loop (possibleAccessTier # rest) v s =
     (if possibleAccessTier = v then s\<lparr>val := Some possibleAccessTier\<rparr>
      else Set_loop rest v s)"

definition AzureTier_Set :: "string list \<Rightarrow> AzureTier \<Rightarrow> string \<Rightarrow> AzureTier \<times> error option" where
  "AzureTier_Set tiers s v0 =
     (let v = (if v0 = [] then ''Hot'' else v0);
          s' = Set_loop tiers v s
      in if val s' = None
         then (s', Some (NewError (''Azure tier '' @ v @ '' not found'')))
         else (s', None))"

definition AzureTier_Get :: "AzureTier \<Rightarrow> string option" where
  "AzureTier_Get s = val s"

text \<open>Line 57: \<^verbatim>\<open>var azureTier = &AzureTier{}\<close>.\<close>

definition azureTier_init :: AzureTier where
  "azureTier_init = \<lparr>val = None\<rparr>"

text \<open>
  \<^verbatim>\<open>flag.Parse()\<close> for the flag registered at line 63, after Go's \<^verbatim>\<open>flag\<close> package: it
  calls \<^verbatim>\<open>Set\<close> once for every occurrence of \<^verbatim>\<open>-azure-tier\<close> on the command line, in
  order, with the value given there, and it does not call \<^verbatim>\<open>Set\<close> when the option is
  absent. When \<^verbatim>\<open>Set\<close> returns an error the process prints it and exits with status 2
  (\<open>Inl\<close>). The argument is the list of the values of the occurrences.
\<close>

fun flag_Parse :: "string list \<Rightarrow> AzureTier \<Rightarrow> string list \<Rightarrow> error + AzureTier" where
  "flag_Parse tiers s [] = Inr s"
| "flag_Parse tiers s (v # vs) =
     (case AzureTier_Set tiers s v of
        (s', Some err) \<Rightarrow> Inl err
      | (s', None) \<Rightarrow> flag_Parse tiers s' vs)"

text \<open>
  The values of \<^verbatim>\<open>blob.PossibleAccessTierValues()\<close> in the Azure SDK, for the examples;
  the general statements hold for every list.
\<close>

definition PossibleAccessTierValues :: "string list" where
  "PossibleAccessTierValues =
     [''Archive'', ''Cold'', ''Cool'', ''Hot'', ''P10'', ''P15'', ''P20'', ''P30'', ''P4'',
      ''P40'', ''P50'', ''P6'', ''P60'', ''P70'', ''P80'', ''Premium'']"

subsection \<open>Copying one object\<close>

record CopyWorkItem =
  Bucket :: string
  Key :: string

text \<open>
  A context is \<^verbatim>\<open>context.Background()\<close>, whose \<^verbatim>\<open>Err()\<close> is always \<^verbatim>\<open>nil\<close>, or a
  context that has been cancelled. \<^verbatim>\<open>NewS3Copier\<close> only makes the first.
\<close>

datatype Context = Background | Cancelled

fun ctx_Err :: "Context \<Rightarrow> error option" where
  "ctx_Err Background = None"
| "ctx_Err Cancelled = Some (OtherError ''context canceled'')"

text \<open>
  The two storage clients are the collaborators of \<^verbatim>\<open>CopyFile\<close>. \<open>s3Client c bucket key\<close>
  is the result of \<^verbatim>\<open>GetObject\<close>: an error, or the body of the object.
  \<open>azClient c container key body tier\<close> is the error of \<^verbatim>\<open>UploadStream\<close>.
\<close>

record FromS3Copier =
  s3Client :: "string \<Rightarrow> string \<Rightarrow> error + string"
  azClient :: "string \<Rightarrow> string \<Rightarrow> string \<Rightarrow> string option \<Rightarrow> error option"
  ctx :: Context

text \<open>What \<^verbatim>\<open>CopyFile\<close> does besides returning: the calls to the clients and the log.\<close>

datatype event =
    GetObject string string
  | UploadStream string string string "string option"
  | BodyClose
  | LogPrintf string

definition tab :: char where
  "tab = CHR 0x09"

definition newline :: char where
  "newline = CHR 0x0A"

text \<open>
  \<^verbatim>\<open>CopyFile\<close> (lines 83 to 108). The global \<^verbatim>\<open>azureTier\<close> is the first argument. The
  deferred \<^verbatim>\<open>out.Body.Close()\<close> runs last on every path after a successful download.
\<close>

definition CopyFile :: "AzureTier \<Rightarrow> FromS3Copier \<Rightarrow> CopyWorkItem \<Rightarrow> event list \<times> error option" where
  "CopyFile azureTier c wi =
     (case QueryUnescape (Key wi) of
        Inl bad \<Rightarrow>
          ([], Some (Propagate (EscapeError bad)
                       (''unable to url decode '' @ Bucket wi @ ''/'' @ Key wi)))
      | Inr key \<Rightarrow>
          (case s3Client c (Bucket wi) key of
             Inl err \<Rightarrow>
               ([GetObject (Bucket wi) key],
                Some (Propagate err (Bucket wi @ [tab] @ key @ '' download failed'')))
           | Inr body \<Rightarrow>
               (let container = azureContainer (Bucket wi);
                    upload = UploadStream container key body (AzureTier_Get azureTier)
                in case azClient c container key body (AzureTier_Get azureTier) of
                     Some err \<Rightarrow>
                       ([GetObject (Bucket wi) key, upload, BodyClose],
                        (case RootCause err of
                           ResponseError code \<Rightarrow>
                             Some (Errorf (container @ [tab] @ key @ '' upload failed: '' @ code))
                         | _ \<Rightarrow>
                             Some (Propagate err
                                     (''Uploading '' @ container @ ''/'' @ key @ '' failed''))))
                   | None \<Rightarrow>
                       ([GetObject (Bucket wi) key, upload,
                         LogPrintf (''Copied'' @ [tab] @ Bucket wi @ [tab] @ key @ [newline]),
                         BodyClose],
                        None))))"

subsection \<open>A worker\<close>

text \<open>
  \<^verbatim>\<open>DoCopy\<close> (lines 135 to 144). The argument \<open>wis\<close> is the sequence of the work items this
  worker receives from \<^verbatim>\<open>inputs\<close> until the channel is closed; the result is the sequence
  of the values it sends on \<^verbatim>\<open>resultsChannel\<close>.
\<close>

fun DoCopy_loop :: "AzureTier \<Rightarrow> FromS3Copier \<Rightarrow> CopyWorkItem list \<Rightarrow> error option list" where
  "DoCopy_loop azureTier c [] = []"
| "DoCopy_loop azureTier c (workItem # wis) =
     (if ctx_Err (ctx c) \<noteq> None then []
      else snd (CopyFile azureTier c workItem) # DoCopy_loop azureTier c wis)"

definition DoCopy :: "AzureTier \<Rightarrow> FromS3Copier \<Rightarrow> CopyWorkItem list \<Rightarrow> error option list" where
  "DoCopy azureTier c wis = DoCopy_loop azureTier c wis @ [Some errCloseSentinel]"

text \<open>
  \<^verbatim>\<open>NewS3Copier\<close> (lines 110 to 133), given the two clients it has built: the context is
  \<^verbatim>\<open>context.Background()\<close>.
\<close>

definition NewS3Copier ::
  "(string \<Rightarrow> string \<Rightarrow> error + string) \<Rightarrow>
   (string \<Rightarrow> string \<Rightarrow> string \<Rightarrow> string option \<Rightarrow> error option) \<Rightarrow> FromS3Copier" where
  "NewS3Copier s3 az = \<lparr>s3Client = s3, azClient = az, ctx = Background\<rparr>"

subsection \<open>The work source\<close>

text \<open>
  \<^verbatim>\<open>readerLoop\<close> (lines 146 to 186). The input is what the collaborators give: \<open>Inl err\<close>
  when \<^verbatim>\<open>os.Open\<close> fails, otherwise the results of the successive calls of
  \<^verbatim>\<open>workReader.Read()\<close> before the one that returns \<^verbatim>\<open>io.EOF\<close>, each a record (the
  fields of a line) or an error. (The reader of \<^verbatim>\<open>encoding/csv\<close> gives an error itself for
  a line whose number of fields is not that of the first line.) The result is the sequence of the work items sent on
  \<^verbatim>\<open>output\<close> and how the source ends: the channel is closed, or \<^verbatim>\<open>log.Fatal\<close> ends the
  process with status 1.
\<close>

datatype read_result = Record "string list" | ReadError error

datatype fatal =
    Fatal_error error
  | Fatal_reading int error
  | Fatal_fields int nat

datatype source_end = Closed | Aborted fatal

fun readerLoop_from :: "int \<Rightarrow> read_result list \<Rightarrow> CopyWorkItem list \<times> source_end" where
  "readerLoop_from i [] = ([], Closed)"
| "readerLoop_from i (ReadError err # reads) = ([], Aborted (Fatal_reading i err))"
| "readerLoop_from i (Record line # reads) =
     (if length line \<noteq> 2 then ([], Aborted (Fatal_fields i (length line)))
      else (case readerLoop_from (i + 1) reads of
              (items, e) \<Rightarrow> (\<lparr>Bucket = line ! 0, Key = line ! 1\<rparr> # items, e)))"

definition readerLoop :: "error + read_result list \<Rightarrow> CopyWorkItem list \<times> source_end" where
  "readerLoop input =
     (case input of
        Inl err \<Rightarrow> ([], Aborted (Fatal_error err))
      | Inr reads \<Rightarrow> readerLoop_from 1 reads)"

subsection \<open>The aggregator\<close>

text \<open>
  Lines 202 to 223 of \<^verbatim>\<open>main\<close>. The state is the three counters and the lines logged. The
  loop reads the values that arrive on \<^verbatim>\<open>results\<close>, in order; \<open>closed\<close> tells whether the
  channel is closed once they are read. A \<^verbatim>\<open>range\<close> over a channel ends when the channel
  is closed and empty, and line 223 follows; it waits when the channel is open and empty
  (\<open>Waiting\<close>: the loop has read every value given and \<^verbatim>\<open>main\<close> has not ended; should no
  value ever come, it never returns). The \<^verbatim>\<open>return\<close> of line 210 leaves \<^verbatim>\<open>main\<close>, and
  the process, at once. The result is how far \<^verbatim>\<open>main\<close> has come, the state then, and the
  values not read.
\<close>

datatype log_line = LogError error | LogProcessed int int

record main_state =
  expectedCloses :: int
  seenOk :: int
  seen :: int
  logged :: "log_line list"

datatype main_end = Returned | Completed | Waiting | Panicked

fun main_loop ::
  "main_state \<Rightarrow> error option list \<Rightarrow> bool \<Rightarrow> main_end \<times> main_state \<times> error option list" where
  "main_loop st [] closed =
     (if closed
      then (Completed,
            st\<lparr>logged := logged st @ [LogProcessed (seen st) (seen st - seenOk st)]\<rparr>, [])
      else (Waiting, st, []))"
| "main_loop st (res # rs) closed =
     (let st1 = (if res = Some errCloseSentinel
                 then st\<lparr>expectedCloses := expectedCloses st - 1\<rparr> else st)
      in if res = Some errCloseSentinel \<and> expectedCloses st1 = 0 then (Returned, st1, rs)
         else let st2 = st1\<lparr>seen := seen st1 + 1\<rparr>
              in case res of
                   None \<Rightarrow> main_loop (st2\<lparr>seenOk := seenOk st2 + 1\<rparr>) rs closed
                 | Some err \<Rightarrow>
                     if err = errCloseSentinel then main_loop st2 rs closed
                     else main_loop (st2\<lparr>logged := logged st2 @ [LogError err]\<rparr>) rs closed)"

definition main_init :: "int \<Rightarrow> main_state" where
  "main_init concurrency =
     \<lparr>expectedCloses = concurrency, seenOk = 0, seen = 0, logged = []\<rparr>"

text \<open>
  Arithmetic on a Go \<^verbatim>\<open>int\<close> wraps around: \<open>wrap64 x\<close> is the 64-bit signed value of \<open>x\<close>.
\<close>

definition wrap64 :: "int \<Rightarrow> int" where
  "wrap64 x = (x + 2 ^ 63) mod 2 ^ 64 - 2 ^ 63"

text \<open>
  \<^verbatim>\<open>main\<close> from line 192 on, given the values \<open>rs\<close> that the workers send on \<^verbatim>\<open>results\<close>,
  in a run whose start does not fail (\<^verbatim>\<open>flag.Parse\<close>, \<^verbatim>\<open>os.Open\<close> and \<^verbatim>\<open>NewS3Copier\<close>
  end the process on an error). \<open>concurrency\<close> is the value of the flag \<^verbatim>\<open>-j\<close>, a Go
  \<^verbatim>\<open>int\<close>. Line 192 makes \<^verbatim>\<open>results\<close> with the capacity \<^verbatim>\<open>2*(*concurrency)\<close>, which
  wraps around; \<^verbatim>\<open>make\<close> ends the process, with a panic or a fatal error of the runtime,
  when the capacity is negative or more than the runtime can give. The largest capacity it
  gives depends on the platform and its memory and is the parameter \<open>maxChan\<close>. Line 194
  panics on a negative \<^verbatim>\<open>*concurrency\<close>. The counters are made after that, at lines 202 to
  204; at a panic the result carries the values they would start with. Nothing but line 209
  closes \<^verbatim>\<open>results\<close>, so the loop starts on an open channel.
\<close>

definition main ::
  "int \<Rightarrow> int \<Rightarrow> error option list \<Rightarrow> main_end \<times> main_state \<times> error option list" where
  "main maxChan concurrency rs =
     (let size = wrap64 (2 * concurrency)
      in if size < 0 \<or> maxChan < size then (Panicked, main_init concurrency, rs)
         else if concurrency < 0 then (Panicked, main_init concurrency, rs)
         else main_loop (main_init concurrency) rs False)"

text \<open>
  The limit of \<^verbatim>\<open>runtime.makechan\<close> on a 64-bit Linux, for the examples: the buffer, 16
  bytes for each \<^verbatim>\<open>error\<close>, may take \<open>2^48 - 96\<close> bytes. The general statements hold for
  every limit.
\<close>

definition makechan_limit :: int where
  "makechan_limit = 2 ^ 44 - 6"

text \<open>
  The exit status of the process: zero when \<^verbatim>\<open>main\<close> returns, 2 after a panic or a fatal
  error of the runtime, none while \<^verbatim>\<open>main\<close> waits.
\<close>

fun exit_status :: "main_end \<Rightarrow> int option" where
  "exit_status Returned = Some 0"
| "exit_status Completed = Some 0"
| "exit_status Waiting = None"
| "exit_status Panicked = Some 2"

subsection \<open>The pipeline\<close>

text \<open>
  A channel delivers every value once, in the order sent by each sender and received by each
  receiver. So the work items the workers receive are sequences that interleave to the
  sequence sent by the work source, and the values \<^verbatim>\<open>main\<close> receives are an interleaving of
  the sequences the workers send. \<open>interleaving xss zs\<close>: the list \<open>zs\<close> is an interleaving of
  the lists \<open>xss\<close>; its first value is the first value of one of them, and so on.
\<close>

fun interleaving :: "'a list list \<Rightarrow> 'a list \<Rightarrow> bool" where
  "interleaving xss [] = list_all (\<lambda>xs. xs = []) xss"
| "interleaving xss (z # zs) =
     list_ex (\<lambda>i. case xss ! i of
                     [] \<Rightarrow> False
                   | x # xs \<Rightarrow> x = z \<and> interleaving (xss[i := xs]) zs)
       [0..<length xss]"

text \<open>
  A run of the pipeline in which the source closes the queue: the workers \<open>workers\<close>, started
  by lines 194 to 200, receive between them the items \<open>items\<close>, worker \<open>j\<close> the sequence
  \<open>pulled ! j\<close>, every worker runs until it has sent its last value, and \<open>rs\<close> is the sequence
  of values on \<^verbatim>\<open>results\<close>.
\<close>

definition pipeline ::
  "AzureTier \<Rightarrow> FromS3Copier list \<Rightarrow> CopyWorkItem list \<Rightarrow> CopyWorkItem list list \<Rightarrow>
   error option list \<Rightarrow> bool" where
  "pipeline azureTier workers items pulled rs \<longleftrightarrow>
     length pulled = length workers \<and>
     list_all (\<lambda>c. ctx c = Background) workers \<and>
     interleaving pulled items \<and>
     interleaving (map2 (DoCopy azureTier) workers pulled) rs"

section \<open>Properties\<close>

subsection \<open>The container name\<close>

lemma ReplaceAll_single:
  "ReplaceAll s [a] [b] = map (\<lambda>c. if c = a then b else c) s"
  by (induction s) auto

text \<open>
  Claim C5. The container name is a function of the bucket name alone: every \<^verbatim>\<open>.\<close> becomes
  \<^verbatim>\<open>-\<close> and every other byte stays as it is, so the length and the case of the letters are
  kept; \<^verbatim>\<open>my.bucket.name\<close> becomes \<^verbatim>\<open>my-bucket-name\<close>.
\<close>

theorem azureContainer_maps_dots:
  "azureContainer bucket = map (\<lambda>c. if c = CHR ''.'' then CHR ''-'' else c) bucket
   \<and> length (azureContainer bucket) = length bucket
   \<and> CHR ''.'' \<notin> set (azureContainer bucket)
   \<and> azureContainer ''my.bucket.name'' = ''my-bucket-name''"
  by (auto simp: azureContainer_def ReplaceAll_single)

subsection \<open>Decoding a key\<close>

text \<open>
  The recursion of the two loops of \<^verbatim>\<open>url.unescape\<close> as an induction rule: a \<^verbatim>\<open>%\<close> with
  two bytes after it, a \<^verbatim>\<open>%\<close> with fewer, any other byte.
\<close>

lemma string_induct3 [case_names Nil Percent Short Other]:
  assumes "P []"
    and "\<And>a b rest. P rest \<Longrightarrow> P (CHR ''%'' # a # b # rest)"
    and "\<And>s. length s < 2 \<Longrightarrow> P (CHR ''%'' # s)"
    and "\<And>c s. c \<noteq> CHR ''%'' \<Longrightarrow> P s \<Longrightarrow> P (c # s)"
  shows "P s"
proof (induction s rule: length_induct)
  case (1 s)
  show ?case
  proof (cases s)
    case Nil
    then show ?thesis using assms(1) by simp
  next
    case (Cons c t)
    show ?thesis
    proof (cases "c = CHR ''%''")
      case False
      have "P t" using 1 Cons by simp
      then show ?thesis using assms(4)[OF False] Cons by simp
    next
      case True
      show ?thesis
      proof (cases "length t < 2")
        case True
        then show ?thesis using assms(3) Cons \<open>c = CHR ''%''\<close> by simp
      next
        case False
        then obtain a b rest where t: "t = a # b # rest"
          by (cases t; cases "tl t") auto
        have "P rest" using 1 Cons t by simp
        then show ?thesis using assms(2) Cons t True by simp
      qed
    qed
  qed
qed

text \<open>
  The counters of the first loop do not decide whether it accepts; it accepts with \<open>n = 0\<close>
  and no \<^verbatim>\<open>+\<close> seen exactly when the string has neither \<^verbatim>\<open>%\<close> nor \<^verbatim>\<open>+\<close>, and then
  the second loop would copy the string. So a decoded key is always what the second loop
  writes.
\<close>

lemma not_ishex_plus: "\<not> ishex CHR ''+''"
  by (simp add: ishex_def)

lemma unescape_scan_shift:
  "unescape_scan s n h =
     (case unescape_scan s 0 False of
        Inl bad \<Rightarrow> Inl bad
      | Inr (m, p) \<Rightarrow> Inr (n + m, h \<or> p))"
proof (induction s arbitrary: n h rule: string_induct3)
  case Nil
  show ?case by simp
next
  case (Percent a b rest)
  show ?case
    using Percent[of "n + 1" h] Percent[of 1 False]
    by (simp split: sum.splits prod.splits)
next
  case (Short s)
  then show ?case by (cases s; cases "tl s") auto
next
  case (Other c s)
  show ?case
    using Other(1) Other(2)[of n True] Other(2)[of 0 True] Other(2)[of n h]
    by (simp split: sum.splits prod.splits)
qed

lemma unescape_scan_0:
  "unescape_scan s 0 False = Inr (m, p) \<Longrightarrow>
     (m = 0 \<longleftrightarrow> CHR ''%'' \<notin> set s) \<and> (p \<longleftrightarrow> CHR ''+'' \<in> set s)"
proof (induction s arbitrary: m p rule: string_induct3)
  case Nil
  then show ?case by auto
next
  case (Percent a b rest)
  then show ?case
    using unescape_scan_shift[of rest 1 False]
    by (auto simp: not_ishex_plus split: sum.splits prod.splits if_splits)
next
  case (Short s)
  then show ?case by (cases s; cases "tl s") auto
next
  case (Other c s)
  show ?case
  proof (cases "c = CHR ''+''")
    case True
    then show ?thesis using Other unescape_scan_shift[of s 0 True]
      by (auto split: sum.splits prod.splits)
  next
    case False
    then show ?thesis using Other by auto
  qed
qed

lemma unescape_build_plain:
  "CHR ''%'' \<notin> set s \<Longrightarrow> CHR ''+'' \<notin> set s \<Longrightarrow> unescape_build s = s"
  by (induction s) auto

lemma QueryUnescape_Inr:
  "QueryUnescape s = Inr key \<Longrightarrow> key = unescape_build s"
proof -
  assume a: "QueryUnescape s = Inr key"
  then obtain m p where mp: "unescape_scan s 0 False = Inr (m, p)"
    by (auto simp: QueryUnescape_def split: sum.splits)
  show ?thesis
  proof (cases "m = 0 \<and> \<not> p")
    case True
    then have "unescape_build s = s"
      using unescape_scan_0[OF mp] by (simp add: unescape_build_plain)
    then show ?thesis using a mp True by (simp add: QueryUnescape_def)
  next
    case False
    then show ?thesis using a mp by (auto simp: QueryUnescape_def)
  qed
qed

lemma QueryUnescape_isl: "isl (QueryUnescape s) = isl (unescape_scan s 0 False)"
  by (auto simp: QueryUnescape_def split: sum.splits)

lemma QueryUnescape_ok:
  "\<not> isl (unescape_scan s 0 False) \<Longrightarrow> QueryUnescape s = Inr (unescape_build s)"
  using QueryUnescape_Inr[of s] QueryUnescape_isl[of s] by (cases "QueryUnescape s") auto

lemma isl_unescape_scan:
  "isl (unescape_scan s n h) = isl (unescape_scan s 0 False)"
  using unescape_scan_shift[of s n h] by (auto split: sum.splits)

lemma unescape_append_plus:
  "\<not> isl (unescape_scan (a @ CHR ''+'' # b) 0 False) \<Longrightarrow>
     \<not> isl (unescape_scan a 0 False) \<and> \<not> isl (unescape_scan b 0 False) \<and>
     unescape_build (a @ CHR ''+'' # b) = unescape_build a @ CHR '' '' # unescape_build b"
proof (induction a rule: string_induct3)
  case Nil
  then show ?case using isl_unescape_scan[of b 0 True] by simp
next
  case (Percent x y rest)
  have "\<not> isl (unescape_scan (rest @ CHR ''+'' # b) 0 False)" "ishex x \<and> ishex y"
    using Percent(2) isl_unescape_scan[of "rest @ CHR ''+'' # b" 1 False]
    by (auto split: if_splits)
  then show ?case
    using Percent(1) isl_unescape_scan[of rest 1 False] by simp
next
  case (Short s)
  then show ?case
    by (cases s; cases "tl s") (auto simp: not_ishex_plus split: list.splits)
next
  case (Other c s)
  show ?case
  proof (cases "c = CHR ''+''")
    case True
    then show ?thesis
      using Other isl_unescape_scan[of "s @ CHR ''+'' # b" 0 True] isl_unescape_scan[of s 0 True]
      by simp
  next
    case False
    then show ?thesis using Other by simp
  qed
qed

subsection \<open>The worker and its outcomes\<close>

lemma CopyFile_not_sentinel: "snd (CopyFile azureTier c wi) \<noteq> Some errCloseSentinel"
  by (simp add: CopyFile_def Let_def split: sum.splits option.splits error.splits)

lemma DoCopy_loop_Background:
  "ctx c = Background \<Longrightarrow>
     DoCopy_loop azureTier c wis = map (\<lambda>wi. snd (CopyFile azureTier c wi)) wis"
  by (induction wis) simp_all

lemma DoCopy_loop_no_sentinel:
  "Some errCloseSentinel \<notin> set (DoCopy_loop azureTier c wis)"
  by (induction wis) (simp_all add: CopyFile_not_sentinel[symmetric])

subsection \<open>The work source\<close>

lemma readerLoop_from_Closed:
  "(readerLoop_from i reads = (items, Closed))
     = (reads = map (\<lambda>wi. Record [Bucket wi, Key wi]) items)"
proof (induction reads arbitrary: i items)
  case Nil
  then show ?case by auto
next
  case (Cons r reads)
  show ?case
  proof (cases r)
    case (ReadError err)
    then show ?thesis by (cases items) auto
  next
    case (Record line)
    show ?thesis
    proof (cases "length line = 2")
      case False
      then show ?thesis using Record by (cases items) auto
    next
      case True
      then obtain x y where line: "line = [x, y]"
        by (cases line; cases "tl line") auto
      show ?thesis
      proof (cases items)
        case Nil
        then show ?thesis using Record line by (auto split: prod.splits)
      next
        case (Cons wi wis)
        then show ?thesis using Record line Cons.IH[of "i + 1" wis]
          by (cases "readerLoop_from (i + 1) reads") auto
      qed
    qed
  qed
qed

lemma readerLoop_from_prefix:
  "readerLoop_from i (map (\<lambda>wi. Record [Bucket wi, Key wi]) items @ rest)
     = (items @ fst (readerLoop_from (i + int (length items)) rest),
        snd (readerLoop_from (i + int (length items)) rest))"
proof (induction items arbitrary: i)
  case Nil
  then show ?case by simp
next
  case (Cons wi items)
  show ?case using Cons[of "i + 1"] by (simp add: ac_simps)
qed

subsection \<open>The aggregator loop\<close>

text \<open>
  The loop on an open channel, started with at least one marker to wait for. After the
  values \<open>rs\<close> it has either returned at line 210, on reading a marker, or it has read all
  of \<open>rs\<close> and waits for the next value.
  \<open>consumed\<close> is what it has read.
\<close>

lemma main_loop_open:
  assumes "1 \<le> expectedCloses st" and "main_loop st rs False = (e, st', rest)"
  shows "\<exists>consumed. rs = consumed @ rest
           \<and> expectedCloses st' = expectedCloses st - int (count_list consumed (Some errCloseSentinel))
           \<and> 0 \<le> expectedCloses st'
           \<and> (e = Returned) = (expectedCloses st' = 0)
           \<and> (e = Returned \<and> consumed \<noteq> [] \<and> last consumed = Some errCloseSentinel
               \<or> e = Waiting \<and> rest = [])
           \<and> seen st' = seen st + int (length consumed) - (if e = Returned then 1 else 0)
           \<and> seenOk st' = seenOk st + int (count_list consumed None)
           \<and> logged st' = logged st
               @ map LogError (filter (\<lambda>err. err \<noteq> errCloseSentinel) (map the (filter (\<lambda>r. r \<noteq> None) consumed)))"
  using assms
proof (induction rs arbitrary: st)
  case Nil
  then show ?case by auto
next
  case (Cons res rs)
  show ?case
  proof (cases "res = Some errCloseSentinel")
    case True
    show ?thesis
    proof (cases "expectedCloses st = 1")
      case True
      have "e = Returned" "st' = st\<lparr>expectedCloses := 0\<rparr>" "rest = rs"
        using Cons.prems \<open>res = Some errCloseSentinel\<close> True by simp_all
      then show ?thesis
        using \<open>res = Some errCloseSentinel\<close> True
        by (intro exI[of _ "[res]"]) simp
    next
      case False
      let ?st = "st\<lparr>expectedCloses := expectedCloses st - 1, seen := seen st + 1\<rparr>"
      have run: "main_loop ?st rs False = (e, st', rest)"
        using Cons.prems \<open>res = Some errCloseSentinel\<close> False by (simp add: Let_def)
      have "1 \<le> expectedCloses ?st" using Cons.prems(1) False by simp
      from Cons.IH[OF this run] obtain consumed where c:
        "rs = consumed @ rest"
        "expectedCloses st' = expectedCloses ?st - int (count_list consumed (Some errCloseSentinel))"
        "0 \<le> expectedCloses st'"
        "(e = Returned) = (expectedCloses st' = 0)"
        "(e = Returned \<and> consumed \<noteq> [] \<and> last consumed = Some errCloseSentinel
               \<or> e = Waiting \<and> rest = [])"
        "seen st' = seen ?st + int (length consumed) - (if e = Returned then 1 else 0)"
        "seenOk st' = seenOk ?st + int (count_list consumed None)"
        "logged st' = logged ?st
               @ map LogError (filter (\<lambda>err. err \<noteq> errCloseSentinel) (map the (filter (\<lambda>r. r \<noteq> None) consumed)))"
        by blast
      show ?thesis
        using c \<open>res = Some errCloseSentinel\<close>
        by (intro exI[of _ "res # consumed"]) auto
    qed
  next
    case False
    let ?st = "(case res of None \<Rightarrow> st\<lparr>seen := seen st + 1, seenOk := seenOk st + 1\<rparr>
                | Some err \<Rightarrow> st\<lparr>seen := seen st + 1, logged := logged st @ [LogError err]\<rparr>)"
    have run: "main_loop ?st rs False = (e, st', rest)"
      using Cons.prems False by (cases res) (simp_all add: Let_def)
    have "1 \<le> expectedCloses ?st" using Cons.prems(1) by (cases res) simp_all
    from Cons.IH[OF this run] obtain consumed where c:
        "rs = consumed @ rest"
        "expectedCloses st' = expectedCloses ?st - int (count_list consumed (Some errCloseSentinel))"
        "0 \<le> expectedCloses st'"
        "(e = Returned) = (expectedCloses st' = 0)"
        "(e = Returned \<and> consumed \<noteq> [] \<and> last consumed = Some errCloseSentinel
               \<or> e = Waiting \<and> rest = [])"
        "seen st' = seen ?st + int (length consumed) - (if e = Returned then 1 else 0)"
        "seenOk st' = seenOk ?st + int (count_list consumed None)"
        "logged st' = logged ?st
               @ map LogError (filter (\<lambda>err. err \<noteq> errCloseSentinel) (map the (filter (\<lambda>r. r \<noteq> None) consumed)))"
      by blast
    show ?thesis
      using c False
      by (intro exI[of _ "res # consumed"]) (cases res; auto)
  qed
qed


subsection \<open>Interleavings and the pipeline\<close>

lemma sum_list_map_update:
  fixes f :: "'a \<Rightarrow> nat"
  shows "i < length xss \<Longrightarrow>
     sum_list (map f (xss[i := y])) + f (xss ! i) = sum_list (map f xss) + f y"
proof (induction xss arbitrary: i)
  case Nil
  then show ?case by simp
next
  case (Cons x xss)
  then show ?case by (cases i) auto
qed

lemma interleaving_Cons:
  "i < length xss \<Longrightarrow> xss ! i = z # xs \<Longrightarrow> interleaving (xss[i := xs]) zs
     \<Longrightarrow> interleaving xss (z # zs)"
  by (auto simp: list_ex_iff intro!: bexI[of _ i])

lemma interleaving_induct [consumes 1, case_names Nil Cons]:
  assumes "interleaving xss zs"
    and "\<And>xss. list_all (\<lambda>xs. xs = []) xss \<Longrightarrow> P xss []"
    and "\<And>i xss z xs zs. i < length xss \<Longrightarrow> xss ! i = z # xs \<Longrightarrow>
           interleaving (xss[i := xs]) zs \<Longrightarrow> P (xss[i := xs]) zs \<Longrightarrow> P xss (z # zs)"
  shows "P xss zs"
  using assms(1)
proof (induction zs arbitrary: xss)
  case Nil
  then show ?case using assms(2) by simp
next
  case (Cons z zs)
  then obtain i where i: "i < length xss"
    and c: "case xss ! i of [] \<Rightarrow> False
            | x # xs \<Rightarrow> x = z \<and> interleaving (xss[i := xs]) zs"
    by (auto simp: list_ex_iff)
  then obtain xs where xs: "xss ! i = z # xs" "interleaving (xss[i := xs]) zs"
    by (cases "xss ! i") auto
  show ?case
    using assms(3)[OF i xs(1) xs(2) Cons.IH[OF xs(2)]] .
qed

lemma interleaving_sum:
  fixes f :: "'a list \<Rightarrow> nat"
  assumes "interleaving xss zs" and "f [] = 0" and "\<And>x xs. f (x # xs) = g x + f xs"
  shows "f zs = sum_list (map f xss)"
  using assms(1)
proof (induction rule: interleaving_induct)
  case (Nil xss)
  then have "\<forall>xs\<in>set xss. f xs = 0" using assms(2) by (auto simp: list_all_iff)
  then have "sum_list (map f xss) = 0" by simp
  then show ?case using assms(2) by simp
next
  case (Cons i xss z xs zs)
  have "sum_list (map f (xss[i := xs])) + f (z # xs) = sum_list (map f xss) + f xs"
    using sum_list_map_update[OF Cons(1), of f xs] Cons(2) by simp
  then show ?case using Cons(4) assms(3) by simp
qed

lemma interleaving_length: "interleaving xss zs \<Longrightarrow> length zs = sum_list (map length xss)"
  by (rule interleaving_sum[where g = "\<lambda>x. 1"]) simp_all

lemma interleaving_count:
  "interleaving xss zs \<Longrightarrow> count_list zs a = sum_list (map (\<lambda>xs. count_list xs a) xss)"
  by (rule interleaving_sum[where g = "\<lambda>x. if x = a then 1 else 0"]) simp_all

lemma interleaving_last:
  "interleaving xss zs \<Longrightarrow> zs \<noteq> [] \<Longrightarrow> \<exists>xs\<in>set xss. xs \<noteq> [] \<and> last xs = last zs"
proof (induction rule: interleaving_induct)
  case (Nil xss)
  then show ?case by simp
next
  case (Cons i xss z xs zs)
  have mem: "z # xs \<in> set xss"
    using Cons(1,2) by (metis nth_mem)
  show ?case
  proof (cases "zs = []")
    case True
    then have "list_all (\<lambda>xs. xs = []) (xss[i := xs])"
      using Cons(3) by simp
    then have "xs = []"
      using Cons(1) by (auto simp: list_all_iff dest: set_update_memI)
    then show ?thesis using mem True by force
  next
    case False
    then obtain ys where ys: "ys \<in> set (xss[i := xs])" "ys \<noteq> []" "last ys = last zs"
      using Cons(4) by blast
    then have "ys = xs \<or> ys \<in> set xss"
      using set_update_subset_insert[of xss i xs] by auto
    then show ?thesis
    proof
      assume "ys = xs"
      then show ?thesis using mem ys False by force
    next
      assume "ys \<in> set xss"
      then show ?thesis using ys False by force
    qed
  qed
qed

lemma DoCopy_count: "count_list (DoCopy azureTier c wis) (Some errCloseSentinel) = 1"
  using DoCopy_loop_no_sentinel[of azureTier c wis]
  by (simp add: DoCopy_def count_list_0_iff)

lemma workers_sums:
  assumes "length pulled = length workers" and "list_all (\<lambda>c. ctx c = Background) workers"
  shows "sum_list (map (\<lambda>xs. count_list xs (Some errCloseSentinel))
             (map2 (DoCopy azureTier) workers pulled)) = length workers"
    and "sum_list (map length (map2 (DoCopy azureTier) workers pulled))
           = sum_list (map length pulled) + length workers"
    and "\<forall>xs\<in>set (map2 (DoCopy azureTier) workers pulled). last xs = Some errCloseSentinel"
  using assms
proof (induction pulled workers rule: list_induct2)
  case Nil
  case 1 show ?case by simp
  case 2 show ?case by simp
  case 3 show ?case by simp
next
  case (Cons wis pulled c workers)
  case 1 show ?case using Cons 1 by (simp add: DoCopy_count)
  case 2 show ?case using Cons 2 by (simp add: DoCopy_def DoCopy_loop_Background)
  case 3 show ?case using Cons 3 by (simp add: DoCopy_def)
qed

lemma pipeline_stream:
  assumes "pipeline azureTier workers items pulled rs"
  shows "count_list rs (Some errCloseSentinel) = length workers"
    and "length rs = length items + length workers"
    and "workers \<noteq> [] \<Longrightarrow> rs \<noteq> [] \<and> last rs = Some errCloseSentinel"
proof -
  have len: "length pulled = length workers"
    and bg: "list_all (\<lambda>c. ctx c = Background) workers"
    and i1: "interleaving pulled items"
    and i2: "interleaving (map2 (DoCopy azureTier) workers pulled) rs"
    using assms by (simp_all add: pipeline_def)
  show c: "count_list rs (Some errCloseSentinel) = length workers"
    using interleaving_count[OF i2] workers_sums(1)[OF len bg] by simp
  show "length rs = length items + length workers"
    using interleaving_length[OF i2] interleaving_length[OF i1] workers_sums(2)[OF len bg] by simp
  show "rs \<noteq> [] \<and> last rs = Some errCloseSentinel" if "workers \<noteq> []"
  proof -
    have ne: "rs \<noteq> []" using c that by auto
    then show ?thesis
      using interleaving_last[OF i2 ne] workers_sums(3)[OF len bg] by auto
  qed
qed

lemma main_started:
  "0 \<le> concurrency \<Longrightarrow> 0 \<le> wrap64 (2 * concurrency) \<Longrightarrow>
     wrap64 (2 * concurrency) \<le> maxChan \<Longrightarrow>
     main maxChan concurrency rs = main_loop (main_init concurrency) rs False"
  by (simp add: main_def Let_def)

lemma pipeline_main:
  assumes "pipeline azureTier workers items pulled rs" and "workers \<noteq> []"
    and "0 \<le> wrap64 (2 * int (length workers))"
    and "wrap64 (2 * int (length workers)) \<le> maxChan"
    and "main maxChan (int (length workers)) rs = (e, st', rest)"
  shows "e = Returned \<and> rest = [] \<and> expectedCloses st' = 0
         \<and> seen st' = int (length items) + int (length workers) - 1
         \<and> seenOk st' = int (count_list rs None)
         \<and> logged st' = map LogError (filter (\<lambda>err. err \<noteq> errCloseSentinel) (map the (filter (\<lambda>r. r \<noteq> None) rs)))"
proof -
  let ?S = "Some errCloseSentinel"
  have run: "main_loop (main_init (int (length workers))) rs False = (e, st', rest)"
    using assms(3,4,5) by (simp add: main_started)
  have one: "1 \<le> expectedCloses (main_init (int (length workers)))"
    using assms(2) by (cases workers) (simp_all add: main_init_def)
  from main_loop_open[OF one run] obtain consumed where c:
    "rs = consumed @ rest"
    "expectedCloses st' = int (length workers) - int (count_list consumed ?S)"
    "(e = Returned) = (expectedCloses st' = 0)"
    "(e = Returned \<and> consumed \<noteq> [] \<and> last consumed = ?S \<or> e = Waiting \<and> rest = [])"
    "seen st' = int (length consumed) - (if e = Returned then 1 else 0)"
    "seenOk st' = int (count_list consumed None)"
    "logged st' = map LogError (filter (\<lambda>err. err \<noteq> errCloseSentinel) (map the (filter (\<lambda>r. r \<noteq> None) consumed)))"
    by (auto simp: main_init_def)
  note ps = pipeline_stream[OF assms(1)]
  have cnt: "count_list consumed ?S + count_list rest ?S = length workers"
    using ps(1) c(1) by simp
  have ret: "e = Returned"
  proof (rule ccontr)
    assume "e \<noteq> Returned"
    then have "rest = []" "expectedCloses st' \<noteq> 0" using c(3,4) by auto
    then show False using c(2) cnt by simp
  qed
  then have "count_list rest ?S = 0" using c(2,3) cnt by simp
  then have notin: "?S \<notin> set rest" by (simp add: count_list_0_iff)
  have "rest = []"
  proof (rule ccontr)
    assume ne: "rest \<noteq> []"
    then have "last rs = last rest" using c(1) by simp
    then have "?S \<in> set rest" using ps(3)[OF assms(2)] ne by (metis last_in_set)
    then show False using notin by simp
  qed
  then show ?thesis using ret c ps(2) by simp
qed


text \<open>
  On an open channel the loop never reaches line 223: whatever it logs is an error line.
\<close>

lemma main_loop_never_reports:
  "LogProcessed n k \<notin> set (logged st) \<Longrightarrow>
     LogProcessed n k \<notin> set (logged (fst (snd (main_loop st rs False))))"
proof (induction rs arbitrary: st)
  case Nil
  then show ?case by simp
next
  case (Cons res rs)
  show ?case
  proof (cases res)
    case None
    then show ?thesis using Cons.prems by (auto simp: Let_def intro!: Cons.IH)
  next
    case (Some err)
    then show ?thesis using Cons.prems by (auto simp: Let_def intro!: Cons.IH)
  qed
qed

lemma main_never_reports:
  "LogProcessed n k \<notin> set (logged (fst (snd (main maxChan concurrency rs))))"
  using main_loop_never_reports[of n k "main_init concurrency" rs]
  by (simp add: main_def Let_def) (simp add: main_init_def)

subsection \<open>The azure-tier option\<close>

text \<open>
  \<^verbatim>\<open>Set\<close> on the initial value, the first occurrence of the option: the value, with
  \<^verbatim>\<open>Hot\<close> standing for an empty value, is looked up in the list of tiers. A value in the
  list is stored; a value not in the list makes \<^verbatim>\<open>Set\<close> return an error, which ends the
  process at flag parsing.
\<close>

lemma AzureTier_Set_initial:
  "AzureTier_Set tiers azureTier_init v
     = (if (if v = [] then ''Hot'' else v) \<in> set tiers
        then (\<lparr>val = Some (if v = [] then ''Hot'' else v)\<rparr>, None)
        else (azureTier_init,
              Some (NewError (''Azure tier '' @ (if v = [] then ''Hot'' else v) @ '' not found''))))
   \<and> flag_Parse tiers azureTier_init (v # vs)
     = (if (if v = [] then ''Hot'' else v) \<in> set tiers
        then flag_Parse tiers \<lparr>val = Some (if v = [] then ''Hot'' else v)\<rparr> vs
        else Inl (NewError (''Azure tier '' @ (if v = [] then ''Hot'' else v) @ '' not found'')))
   \<and> flag_Parse tiers azureTier_init [] = Inr azureTier_init
   \<and> AzureTier_Get azureTier_init = None"
proof -
  have loop: "\<And>w. Set_loop tiers w azureTier_init
                 = (if w \<in> set tiers then \<lparr>val = Some w\<rparr> else azureTier_init)"
    by (induction tiers) (auto simp: azureTier_init_def)
  show ?thesis
    by (simp add: AzureTier_Set_def loop Let_def AzureTier_Get_def) (simp add: azureTier_init_def)
qed

text \<open>
  \<^verbatim>\<open>Set\<close> tests \<^verbatim>\<open>s.val\<close> after its loop (line 45), so on a second occurrence of the option
  a value that is not a tier is not reported: the tier of the first occurrence stays.
\<close>

lemma flag_Parse_second_occurrence:
  "flag_Parse PossibleAccessTierValues azureTier_init [''Cool'', ''Bogus'']
     = Inr \<lparr>val = Some ''Cool''\<rparr>"
  by (simp add: PossibleAccessTierValues_def azureTier_init_def AzureTier_Set_def)

section \<open>The claims\<close>

text \<open>
  Claim C1. A run that is not aborted prints the final report (items seen, failures as
  \<open>seen - seenOk\<close>) and then exits with status zero. The run here: the default one worker,
  the one input line \<^verbatim>\<open>mybucket<TAB>myfile.txt\<close>, a copy that succeeds. The source closes
  the queue, the worker sends \<^verbatim>\<open>nil\<close> and its marker, and \<^verbatim>\<open>main\<close> returns at line 210
  with status zero and nothing logged: the report of line 223 is not printed (by
  \<open>main_never_reports\<close> it is printed in no run).
\<close>

theorem main_returns_without_report:
  "readerLoop (Inr [Record [''mybucket'', ''myfile.txt'']])
     = ([\<lparr>Bucket = ''mybucket'', Key = ''myfile.txt''\<rparr>], Closed)
   \<and> DoCopy azureTier_init (NewS3Copier (\<lambda>b k. Inr ''data'') (\<lambda>c k d t. None))
        [\<lparr>Bucket = ''mybucket'', Key = ''myfile.txt''\<rparr>]
     = [None, Some errCloseSentinel]
   \<and> main makechan_limit 1 [None, Some errCloseSentinel]
     = (Returned, \<lparr>expectedCloses = 0, seenOk = 1, seen = 1, logged = []\<rparr>, [])
   \<and> exit_status Returned = Some 0"
proof -
  have q: "QueryUnescape ''myfile.txt'' = Inr ''myfile.txt''"
    by (simp add: QueryUnescape_def)
  show ?thesis
    using q
    by (simp add: readerLoop_def DoCopy_def NewS3Copier_def CopyFile_def main_def main_init_def
        wrap64_def makechan_limit_def)
qed

text \<open>
  Claim C2. At the end of a run with \<open>N\<close> workers and \<open>M\<close> well-formed lines \<open>seen\<close> is \<open>M\<close>,
  a marker never being counted; with no line \<open>seen\<close> and \<open>seenOk\<close> are zero. The run here:
  two workers and an empty input. Each worker sends its marker only, the first marker passes
  line 214 and is counted, and \<^verbatim>\<open>main\<close> returns with \<open>seen = 1\<close>. (By \<open>pipeline_main\<close>
  every run ends with \<open>seen = M + N - 1\<close>.)
\<close>

theorem seen_counts_markers:
  "readerLoop (Inr []) = ([], Closed)
   \<and> pipeline azureTier_init
        [NewS3Copier (\<lambda>b k. Inr ''data'') (\<lambda>c k d t. None),
         NewS3Copier (\<lambda>b k. Inr ''data'') (\<lambda>c k d t. None)]
        [] [[], []] [Some errCloseSentinel, Some errCloseSentinel]
   \<and> main makechan_limit 2 [Some errCloseSentinel, Some errCloseSentinel]
     = (Returned, \<lparr>expectedCloses = 0, seenOk = 0, seen = 1, logged = []\<rparr>, [])"
  by (simp add: readerLoop_def pipeline_def DoCopy_def NewS3Copier_def main_def main_init_def
      wrap64_def makechan_limit_def)

text \<open>
  Claim C3, as stated: in every run with pool size \<open>N\<close> the counter \<open>expectedCloses\<close> starts
  at \<open>N\<close>, goes down by one for each marker received, the run ends exactly when it is zero,
  and it is never negative. The program takes \<^verbatim>\<open>-j 0\<close>: no worker is started, no value
  comes on \<^verbatim>\<open>results\<close>, and with an empty input \<^verbatim>\<open>main\<close> waits at line 205 with the
  counter at zero; the run has not ended.
\<close>

theorem main_waits_at_zero:
  "readerLoop (Inr []) = ([], Closed)
   \<and> pipeline azureTier_init [] [] [] []
   \<and> main makechan_limit 0 []
     = (Waiting, \<lparr>expectedCloses = 0, seenOk = 0, seen = 0, logged = []\<rparr>, [])"
  by (simp add: readerLoop_def pipeline_def main_def main_init_def wrap64_def
      makechan_limit_def)

text \<open>
  Claim C3, amended. In a run with a pool of \<open>N \<ge> 1\<close> workers for which line 192 makes the
  channel (the capacity \<open>2 N\<close>, wrapped, is not negative and not above what the runtime
  gives), \<open>expectedCloses\<close> starts at \<open>N\<close>. Whatever values \<open>rs\<close> are sent on \<^verbatim>\<open>results\<close>,
  when \<^verbatim>\<open>main\<close> has read the values \<open>consumed\<close> the counter is \<open>N\<close> less the number of
  markers among them, and it is not negative. \<^verbatim>\<open>main\<close> has returned exactly when the counter
  is zero, and then the last value read is a marker; otherwise it has read all of \<open>rs\<close> and
  waits for more.
\<close>

theorem expectedCloses_invariant:
  assumes "1 \<le> N" and "0 \<le> wrap64 (2 * N)" and "wrap64 (2 * N) \<le> maxChan"
    and "main maxChan N rs = (e, st', rest)"
  shows "expectedCloses (main_init N) = N
   \<and> rs = take (length rs - length rest) rs @ rest
   \<and> expectedCloses st'
       = N - int (count_list (take (length rs - length rest) rs) (Some errCloseSentinel))
   \<and> 0 \<le> expectedCloses st'
   \<and> (e = Returned) = (expectedCloses st' = 0)
   \<and> (e = Returned \<and> last (take (length rs - length rest) rs) = Some errCloseSentinel
       \<or> e = Waiting \<and> rest = [])"
proof -
  have run: "main_loop (main_init N) rs False = (e, st', rest)"
    using assms by (simp add: main_started)
  have one: "1 \<le> expectedCloses (main_init N)"
    using assms(1) by (simp add: main_init_def)
  from main_loop_open[OF one run] obtain consumed where c:
    "rs = consumed @ rest"
    "expectedCloses st' = N - int (count_list consumed (Some errCloseSentinel))"
    "0 \<le> expectedCloses st'"
    "(e = Returned) = (expectedCloses st' = 0)"
    "(e = Returned \<and> consumed \<noteq> [] \<and> last consumed = Some errCloseSentinel
       \<or> e = Waiting \<and> rest = [])"
    by (auto simp: main_init_def)
  have "take (length rs - length rest) rs = consumed"
    using c(1) by simp
  then show ?thesis
    using c by (auto simp: main_init_def)
qed

theorem expectedCloses_invariant_witness:
  "(1::int) \<le> 2 \<and> 0 \<le> wrap64 (2 * 2) \<and> wrap64 (2 * 2) \<le> makechan_limit
   \<and> main makechan_limit 2
         [None, Some errCloseSentinel, Some (Errorf ''x''), Some errCloseSentinel, None]
       = (Returned,
          \<lparr>expectedCloses = 0, seenOk = 1, seen = 3, logged = [LogError (Errorf ''x'')]\<rparr>,
          [None])
   \<and> expectedCloses \<lparr>expectedCloses = 0, seenOk = 1, seen = 3,
                      logged = [LogError (Errorf ''x'')]\<rparr>
       = 2 - int (count_list
                    [None, Some errCloseSentinel, Some (Errorf ''x''), Some errCloseSentinel]
                    (Some errCloseSentinel))"
proof -
  have h1: "(1::int) \<le> 2" by simp
  have h2: "0 \<le> wrap64 (2 * 2)" by (simp add: wrap64_def)
  have h3: "wrap64 (2 * 2) \<le> makechan_limit" by (simp add: wrap64_def makechan_limit_def)
  have m: "main makechan_limit 2
         [None, Some errCloseSentinel, Some (Errorf ''x''), Some errCloseSentinel, None]
       = (Returned,
          \<lparr>expectedCloses = 0, seenOk = 1, seen = 3, logged = [LogError (Errorf ''x'')]\<rparr>,
          [None])"
    by (simp add: main_def main_init_def wrap64_def makechan_limit_def)
  show ?thesis
    using h1 h2 h3 m expectedCloses_invariant[OF h1 h2 h3 m] by simp
qed

text \<open>
  Claim C4. The tier option is checked against the list of tiers, a value not in it is fatal
  at flag parsing, and a default tier is supplied when the option is unset. The run here: a
  command line without \<^verbatim>\<open>-azure-tier\<close>. The \<^verbatim>\<open>flag\<close> package does not call \<^verbatim>\<open>Set\<close>, the
  tier stays \<^verbatim>\<open>nil\<close>, and \<^verbatim>\<open>azureTier.Get()\<close> gives \<^verbatim>\<open>nil\<close> to the upload: the default
  \<^verbatim>\<open>Hot\<close> of lines 36 to 38 is not supplied. It is supplied on a command line that gives
  the option an empty value.
\<close>

theorem azure_tier_unset_is_nil:
  "flag_Parse PossibleAccessTierValues azureTier_init [] = Inr \<lparr>val = None\<rparr>
   \<and> AzureTier_Get \<lparr>val = None\<rparr> = None
   \<and> flag_Parse PossibleAccessTierValues azureTier_init [''''] = Inr \<lparr>val = Some ''Hot''\<rparr>"
  by (simp add: azureTier_init_def AzureTier_Get_def AzureTier_Set_def
      PossibleAccessTierValues_def)

text \<open>
  Claim C6. The work source closes the queue exactly when every read gives a record of two
  fields, and then the items are these fields as they are read. The first read error, or the
  first record with another number of fields, ends the process, after the items before it;
  the line number is in the message. The key \<^verbatim>\<open>my%20file.txt\<close> leaves the source
  undecoded, and \<^verbatim>\<open>CopyFile\<close> asks S3 for \<^verbatim>\<open>my file.txt\<close>.
\<close>

theorem readerLoop_aborts_or_closes:
  assumes "length line \<noteq> 2"
  shows "(readerLoop (Inr reads) = (items, Closed))
           = (reads = map (\<lambda>wi. Record [Bucket wi, Key wi]) items)
   \<and> readerLoop (Inr (map (\<lambda>wi. Record [Bucket wi, Key wi]) items @ ReadError err # rest))
       = (items, Aborted (Fatal_reading (1 + int (length items)) err))
   \<and> readerLoop (Inr (map (\<lambda>wi. Record [Bucket wi, Key wi]) items @ Record line # rest))
       = (items, Aborted (Fatal_fields (1 + int (length items)) (length line)))
   \<and> readerLoop (Inr [Record [''b'', ''my%20file.txt'']])
       = ([\<lparr>Bucket = ''b'', Key = ''my%20file.txt''\<rparr>], Closed)
   \<and> QueryUnescape ''my%20file.txt'' = Inr ''my file.txt''
   \<and> hd (fst (CopyFile azureTier c \<lparr>Bucket = ''b'', Key = ''my%20file.txt''\<rparr>))
       = GetObject ''b'' ''my file.txt''"
proof -
  have q: "QueryUnescape ''my%20file.txt'' = Inr ''my file.txt''"
    by code_simp
  have "hd (fst (CopyFile azureTier c \<lparr>Bucket = ''b'', Key = ''my%20file.txt''\<rparr>))
       = GetObject ''b'' ''my file.txt''"
    using q by (simp add: CopyFile_def Let_def split: sum.splits option.splits)
  then show ?thesis
    using assms q
    by (simp add: readerLoop_def readerLoop_from_Closed readerLoop_from_prefix)
qed

theorem readerLoop_aborts_or_closes_witness:
  "length [''onlyone''] \<noteq> 2
   \<and> readerLoop (Inr [Record [''onlyone'']]) = ([], Aborted (Fatal_fields 1 1))
   \<and> readerLoop (Inr [Record [''b'', ''k''], ReadError (OtherError ''wrong number of fields'')])
       = ([\<lparr>Bucket = ''b'', Key = ''k''\<rparr>],
          Aborted (Fatal_reading 2 (OtherError ''wrong number of fields'')))"
proof -
  have h: "length [''onlyone''] \<noteq> 2" by simp
  show ?thesis
    using h
      readerLoop_aborts_or_closes[OF h, where items = "[]" and rest = "[]"]
      readerLoop_aborts_or_closes[OF h, where items = "[\<lparr>Bucket = ''b'', Key = ''k''\<rparr>]"
        and rest = "[]" and err = "OtherError ''wrong number of fields''"]
    by simp
qed

text \<open>
  Claim C7. When the key of a work item does not decode, \<^verbatim>\<open>CopyFile\<close> calls no client and
  returns the decode error, wrapped; the worker sends it on the results and goes on with the
  items after it, up to its marker; \<^verbatim>\<open>main\<close> counts and logs it and goes on with the
  values after it. The key \<^verbatim>\<open>%zz\<close> is such a key.
\<close>

theorem decode_failure_is_outcome:
  assumes "QueryUnescape (Key wi) = Inl bad"
  shows "CopyFile azureTier c wi
           = ([], Some (Propagate (EscapeError bad)
                          (''unable to url decode '' @ Bucket wi @ ''/'' @ Key wi)))
         \<and> DoCopy azureTier (NewS3Copier s3 az) (before @ wi # later)
             = map (\<lambda>wi. snd (CopyFile azureTier (NewS3Copier s3 az) wi)) before
               @ Some (Propagate (EscapeError bad)
                          (''unable to url decode '' @ Bucket wi @ ''/'' @ Key wi))
               # DoCopy azureTier (NewS3Copier s3 az) later
         \<and> main_loop st (snd (CopyFile azureTier c wi) # rs) closed
             = main_loop (st\<lparr>seen := seen st + 1,
                              logged := logged st @ [LogError (Propagate (EscapeError bad)
                                (''unable to url decode '' @ Bucket wi @ ''/'' @ Key wi))]\<rparr>)
                 rs closed"
  using assms
  by (simp add: CopyFile_def DoCopy_def DoCopy_loop_Background NewS3Copier_def Let_def)

theorem decode_failure_is_outcome_witness:
  "QueryUnescape (Key \<lparr>Bucket = ''b'', Key = ''%zz''\<rparr>) = Inl ''%zz''
   \<and> DoCopy azureTier_init (NewS3Copier (\<lambda>b k. Inr ''data'') (\<lambda>c k d t. None))
        [\<lparr>Bucket = ''b'', Key = ''%zz''\<rparr>, \<lparr>Bucket = ''b'', Key = ''k''\<rparr>]
      = [Some (Propagate (EscapeError ''%zz'') ''unable to url decode b/%zz''), None,
         Some errCloseSentinel]"
proof -
  have h: "QueryUnescape (Key \<lparr>Bucket = ''b'', Key = ''%zz''\<rparr>) = Inl ''%zz''"
    by (simp add: QueryUnescape_def ishex_def)
  have k: "QueryUnescape ''k'' = Inr ''k''"
    by (simp add: QueryUnescape_def)
  show ?thesis
    using h k decode_failure_is_outcome[OF h, of azureTier_init _ "\<lambda>b k. Inr ''data''" "\<lambda>c k d t. None" "[]"
                  "[\<lparr>Bucket = ''b'', Key = ''k''\<rparr>]"]
    by (simp add: DoCopy_def NewS3Copier_def CopyFile_def)
qed

text \<open>
  Claim C8. A worker made by \<^verbatim>\<open>NewS3Copier\<close> sends the result of \<^verbatim>\<open>CopyFile\<close> for each
  item it receives, in order, and then its marker. For every worker the marker is the last
  value sent and is sent once. (A worker with a cancelled context, which the program does not
  make, would stop at the next item without an outcome for it.)
\<close>

theorem DoCopy_outcomes_then_marker:
  "DoCopy azureTier (NewS3Copier s3 az) wis
     = map (\<lambda>wi. snd (CopyFile azureTier (NewS3Copier s3 az) wi)) wis @ [Some errCloseSentinel]
   \<and> length (DoCopy azureTier (NewS3Copier s3 az) wis) = length wis + 1
   \<and> last (DoCopy azureTier c wis) = Some errCloseSentinel
   \<and> count_list (DoCopy azureTier c wis) (Some errCloseSentinel) = 1"
  using DoCopy_loop_no_sentinel[of azureTier c wis]
  by (simp add: DoCopy_def DoCopy_loop_Background NewS3Copier_def count_list_0_iff)

text \<open>
  Claim C9. \<^verbatim>\<open>CopyFile\<close> never returns \<^verbatim>\<open>errCloseSentinel\<close>: its errors are new objects
  made by \<^verbatim>\<open>stacktrace.Propagate\<close> and \<^verbatim>\<open>fmt.Errorf\<close>. So no outcome a worker sends is
  the marker, and \<^verbatim>\<open>main\<close> does not decrement \<open>expectedCloses\<close> on an outcome.
\<close>

theorem CopyFile_never_sentinel:
  "snd (CopyFile azureTier c wi) \<noteq> Some errCloseSentinel
   \<and> Some errCloseSentinel \<notin> set (DoCopy_loop azureTier c wis)
   \<and> expectedCloses (fst (snd (main_loop st [snd (CopyFile azureTier c wi)] closed)))
       = expectedCloses st"
  using CopyFile_not_sentinel[of azureTier c wi] DoCopy_loop_no_sentinel[of azureTier c wis]
  by (cases "snd (CopyFile azureTier c wi)") (simp_all add: Let_def)

text \<open>
  Claim C10. A key that decodes and has a \<^verbatim>\<open>+\<close> anywhere, \<open>a + b\<close>, decodes to the
  decoding of \<open>a\<close>, a space, and the decoding of \<open>b\<close>. The decoded key is the key of the
  \<^verbatim>\<open>GetObject\<close> call and, when the download succeeds, of the \<^verbatim>\<open>UploadStream\<close> call.
\<close>

theorem plus_decoded_to_space:
  assumes "Key wi = a @ CHR ''+'' # b" and "QueryUnescape (Key wi) = Inr key"
  shows "(\<exists>ka kb. QueryUnescape a = Inr ka \<and> QueryUnescape b = Inr kb
            \<and> key = ka @ CHR '' '' # kb)
         \<and> (case s3Client c (Bucket wi) key of
               Inl err \<Rightarrow> fst (CopyFile azureTier c wi) = [GetObject (Bucket wi) key]
             | Inr body \<Rightarrow>
                 take 2 (fst (CopyFile azureTier c wi))
                   = [GetObject (Bucket wi) key,
                      UploadStream (azureContainer (Bucket wi)) key body
                        (AzureTier_Get azureTier)])"
proof -
  have ok: "\<not> isl (unescape_scan (a @ CHR ''+'' # b) 0 False)"
    using assms QueryUnescape_isl[of "Key wi"] by simp
  have key: "key = unescape_build (a @ CHR ''+'' # b)"
    using assms QueryUnescape_Inr by simp
  have "QueryUnescape a = Inr (unescape_build a)" "QueryUnescape b = Inr (unescape_build b)"
       "key = unescape_build a @ CHR '' '' # unescape_build b"
    using unescape_append_plus[OF ok] key by (simp_all add: QueryUnescape_ok)
  then have first: "\<exists>ka kb. QueryUnescape a = Inr ka \<and> QueryUnescape b = Inr kb
            \<and> key = ka @ CHR '' '' # kb"
    by blast
  have second: "(case s3Client c (Bucket wi) key of
               Inl err \<Rightarrow> fst (CopyFile azureTier c wi) = [GetObject (Bucket wi) key]
             | Inr body \<Rightarrow>
                 take 2 (fst (CopyFile azureTier c wi))
                   = [GetObject (Bucket wi) key,
                      UploadStream (azureContainer (Bucket wi)) key body
                        (AzureTier_Get azureTier)])"
    using assms(2) by (simp add: CopyFile_def Let_def split: sum.splits option.splits)
  show ?thesis using first second by blast
qed

theorem plus_decoded_to_space_witness:
  "Key \<lparr>Bucket = ''b'', Key = ''a+b%2Bc''\<rparr> = ''a'' @ CHR ''+'' # ''b%2Bc''
   \<and> QueryUnescape (Key \<lparr>Bucket = ''b'', Key = ''a+b%2Bc''\<rparr>) = Inr ''a b+c''
   \<and> fst (CopyFile azureTier_init (NewS3Copier (\<lambda>b k. Inr ''data'') (\<lambda>c k d t. None))
             \<lparr>Bucket = ''b'', Key = ''a+b%2Bc''\<rparr>)
       = [GetObject ''b'' ''a b+c'', UploadStream ''b'' ''a b+c'' ''data'' None,
          LogPrintf (''Copied'' @ [tab] @ ''b'' @ [tab] @ ''a b+c'' @ [newline]), BodyClose]"
proof -
  have h1: "Key \<lparr>Bucket = ''b'', Key = ''a+b%2Bc''\<rparr> = ''a'' @ CHR ''+'' # ''b%2Bc''"
    by simp
  have h2: "QueryUnescape (Key \<lparr>Bucket = ''b'', Key = ''a+b%2Bc''\<rparr>) = Inr ''a b+c''"
    by code_simp
  show ?thesis
    using h1 h2 plus_decoded_to_space[OF h1 h2, where c = "NewS3Copier (\<lambda>b k. Inr ''data'') (\<lambda>c k d t. None)"
                 and azureTier = azureTier_init]
    by (simp add: CopyFile_def NewS3Copier_def azureContainer_def AzureTier_Get_def
        azureTier_init_def)
qed

end
